theory Spec2Isabelle
  imports Main "HOL-Library.Sublist"
begin

section \<open>Values\<close>

text \<open>
  A Python \<open>str\<close> is a sequence of Unicode code points, so it is modelled as a list of
  natural numbers: \<open>len\<close> is \<open>length\<close>, and the CJK ranges of \<open>ZH_RE\<close> are ranges of
  numbers. \<open>str\<close> turns an ASCII literal into such a string.
\<close>

type_synonym pystr = "nat list"

definition str :: "string \<Rightarrow> pystr" where
  "str s = map of_char s"

text \<open>
  What \<open>json.load\<close> returns: \<open>None\<close>, \<open>bool\<close>, \<open>int\<close>, \<open>float\<close>, \<open>str\<close>, \<open>list\<close> and
  \<open>dict\<close>. The program never computes with a float, it only passes it through to
  \<open>json.dump\<close>, so a float is identified by the literal \<open>json.dump\<close> prints for it.
  A \<open>dict\<close> is the list of its items in insertion order, with distinct keys.
\<close>

datatype json =
    JNull
  | JBool bool
  | JInt int
  | JFloat pystr
  | JStr pystr
  | JList "json list"
  | JDict "(pystr \<times> json) list"

fun is_str :: "json \<Rightarrow> bool" where
  "is_str (JStr s) = True"
| "is_str _ = False"

fun the_str :: "json \<Rightarrow> pystr" where
  "the_str (JStr s) = s"
| "the_str _ = []"

fun elems :: "json \<Rightarrow> json list" where
  "elems (JList xs) = xs"
| "elems _ = []"

section \<open>Library functions the program calls\<close>

text \<open>
  \<open>text.replace(old, new)\<close>: the occurrences of \<open>old\<close> are found from left to right
  without overlap, each search starting behind the previous occurrence. An empty \<open>old\<close>
  matches before every character and at the end.
\<close>

function replace_scan :: "pystr \<Rightarrow> pystr \<Rightarrow> pystr \<Rightarrow> pystr" where
  "replace_scan old new [] = []"
| "replace_scan old new (c # cs) =
     (if old \<noteq> [] \<and> prefix old (c # cs)
      then new @ replace_scan old new (drop (length old) (c # cs))
      else c # replace_scan old new cs)"
  by pat_completeness auto
termination
  by (relation "measure (\<lambda>(old, new, t). length t)") auto

definition py_replace :: "pystr \<Rightarrow> pystr \<Rightarrow> pystr \<Rightarrow> pystr" where
  "py_replace old new text =
     (if old = [] then new @ concat (map (\<lambda>c. c # new) text)
      else replace_scan old new text)"

text \<open>\<open>sep.join(xs)\<close>.\<close>

fun py_join :: "pystr \<Rightarrow> pystr list \<Rightarrow> pystr" where
  "py_join sep [] = []"
| "py_join sep [x] = x"
| "py_join sep (x # y # ys) = x @ sep @ py_join sep (y # ys)"

section \<open>Constants\<close>

definition PREFERRED_ZH_INDEXES :: "nat list" where
  "PREFERRED_ZH_INDEXES = [3, 2]"

text \<open>
  \<open>ZH_RE\<close> is a single character class, so \<open>ZH_RE.search(s)\<close> succeeds exactly when
  some code point of \<open>s\<close> is in the class.
\<close>

definition zh_char :: "nat \<Rightarrow> bool" where
  "zh_char c = ((0x3400 \<le> c \<and> c \<le> 0x4DBF) \<or> (0x4E00 \<le> c \<and> c \<le> 0x9FFF)
     \<or> (0xF900 \<le> c \<and> c \<le> 0xFAFF))"

definition ZH_RE_search :: "pystr \<Rightarrow> bool" where
  "ZH_RE_search s = list_ex zh_char s"

definition TEXT_MARKERS_TO_REMOVE :: "pystr list" where
  "TEXT_MARKERS_TO_REMOVE = [str ''%fSourceHanSansCN-M;'', str ''%f;'']"

section \<open>Marker cleaning\<close>

text \<open>The loop of \<open>clean_text_markers\<close> over the markers.\<close>

fun strip_markers :: "pystr list \<Rightarrow> pystr \<Rightarrow> pystr" where
  "strip_markers [] text = text"
| "strip_markers (marker # markers) text = strip_markers markers (py_replace marker [] text)"

fun clean_text_markers :: "pystr option \<Rightarrow> pystr option" where
  "clean_text_markers None = None"
| "clean_text_markers (Some text) = Some (strip_markers TEXT_MARKERS_TO_REMOVE text)"

section \<open>Resolving one dialogue entry\<close>

fun is_language_item :: "json \<Rightarrow> bool" where
  "is_language_item (JList item) = (if 2 \<le> length item then is_str (item ! 1) else False)"
| "is_language_item _ = False"

text \<open>The loop of \<open>find_language_list\<close> over the fields of the entry.\<close>

fun scan_fields :: "json list \<Rightarrow> json list option" where
  "scan_fields [] = None"
| "scan_fields (JList field # rest) =
     (if field \<noteq> [] \<and> list_all is_language_item field then Some field
      else scan_fields rest)"
| "scan_fields (_ # rest) = scan_fields rest"

fun find_language_list :: "json \<Rightarrow> json list option" where
  "find_language_list (JList text_entry) = scan_fields text_entry"
| "find_language_list _ = None"

text \<open>
  The test \<open>is_language_item(item) and item[1]\<close> of the three loops of
  \<open>pick_language_entry\<close>: \<open>item[1]\<close> is read only behind the guard, and a string is
  true when it is not empty.
\<close>

definition has_text :: "json \<Rightarrow> bool" where
  "has_text item = (if is_language_item item then the_str (elems item ! 1) \<noteq> [] else False)"

fun pick_preferred :: "nat list \<Rightarrow> json list \<Rightarrow> json option" where
  "pick_preferred [] language_list = None"
| "pick_preferred (index # indexes) language_list =
     (if index < length language_list
      then (if has_text (language_list ! index) then Some (language_list ! index)
            else pick_preferred indexes language_list)
      else pick_preferred indexes language_list)"

fun pick_zh :: "json list \<Rightarrow> json option" where
  "pick_zh [] = None"
| "pick_zh (item # items) =
     (if (if has_text item then ZH_RE_search (the_str (elems item ! 1)) else False)
      then Some item else pick_zh items)"

fun pick_nonempty :: "json list \<Rightarrow> json option" where
  "pick_nonempty [] = None"
| "pick_nonempty (item # items) = (if has_text item then Some item else pick_nonempty items)"

definition pick_language_entry :: "json list \<Rightarrow> json option" where
  "pick_language_entry language_list =
     (case pick_preferred PREFERRED_ZH_INDEXES language_list of
        Some item \<Rightarrow> Some item
      | None \<Rightarrow>
         (case pick_zh language_list of
            Some item \<Rightarrow> Some item
          | None \<Rightarrow> pick_nonempty (rev language_list)))"

text \<open>The loop of \<open>pick_fallback_character\<close> over \<open>order\<close>.\<close>

fun first_name_at :: "nat list \<Rightarrow> json list \<Rightarrow> pystr option" where
  "first_name_at [] text_entry = None"
| "first_name_at (index # order) text_entry =
     (if index < length text_entry
      then (case text_entry ! index of
              JStr v \<Rightarrow> (if v \<noteq> [] then Some v else first_name_at order text_entry)
            | _ \<Rightarrow> first_name_at order text_entry)
      else first_name_at order text_entry)"

definition pick_fallback_character :: "json list \<Rightarrow> bool \<Rightarrow> pystr option" where
  "pick_fallback_character text_entry prefer_index1 =
     first_name_at (if prefer_index1 then [1, 0] else [0, 1]) text_entry"

text \<open>
  The last three statements of \<open>extract_character_and_text\<close>, under the comment
  ``Compatibility fallback for older/plain formats''.
\<close>

definition compat_fallback :: "json list \<Rightarrow> pystr option \<times> pystr option" where
  "compat_fallback text_entry =
     (if (if 2 < length text_entry then is_str (text_entry ! 2) else False)
      then (pick_fallback_character text_entry True,
            clean_text_markers (Some (the_str (text_entry ! 2))))
      else if (if 1 < length text_entry then is_str (text_entry ! 1) else False)
      then (pick_fallback_character text_entry True,
            clean_text_markers (Some (the_str (text_entry ! 1))))
      else (pick_fallback_character text_entry True, None))"

text \<open>
  The branch of \<open>extract_character_and_text\<close> taken when an item has been selected.
  \<open>not character\<close> holds for \<open>None\<close> and for the empty string.
\<close>

definition from_selected :: "json list \<Rightarrow> json \<Rightarrow> pystr option \<times> pystr option" where
  "from_selected text_entry selected =
     (let character =
            (if 0 < length (elems selected)
             then (case elems selected ! 0 of JStr c \<Rightarrow> Some c | _ \<Rightarrow> None)
             else None);
          character =
            (if character = None \<or> character = Some []
             then pick_fallback_character text_entry False
             else character)
      in (character, clean_text_markers (Some (the_str (elems selected ! 1)))))"

fun extract_character_and_text :: "json \<Rightarrow> pystr option \<times> pystr option" where
  "extract_character_and_text (JList text_entry) =
     (case find_language_list (JList text_entry) of
        None \<Rightarrow> compat_fallback text_entry
      | Some language_list \<Rightarrow>
         (if language_list \<noteq> []
          then (case pick_language_entry language_list of
                  Some selected \<Rightarrow> from_selected text_entry selected
                | None \<Rightarrow> compat_fallback text_entry)
          else compat_fallback text_entry))"
| "extract_character_and_text _ = (None, None)"

section \<open>The scene walker\<close>

text \<open>
  \<open>ensure_scene_slot\<close> appends \<open>None\<close> until the index exists. The text payload is a
  list of optional scenes, where \<open>None\<close> is \<open>None\<close>; the select payload is a list of JSON
  values, where \<open>None\<close> is \<open>JNull\<close>; so the padding value is a parameter.
\<close>

function ensure_scene_slot :: "'a \<Rightarrow> 'a list \<Rightarrow> nat \<Rightarrow> 'a list" where
  "ensure_scene_slot none container index =
     (if length container \<le> index then ensure_scene_slot none (container @ [none]) index
      else container)"
  by pat_completeness auto
termination
  by (relation "measure (\<lambda>(none, container, index). Suc index - length container)") auto

declare ensure_scene_slot.simps [simp del]

text \<open>
  The inner loop of \<open>extract_file\<close> over the entries of one scene; \<open>scene_text\<close> is the
  list \<open>user_text[scene_index]\<close>, which starts empty and gets two values per entry.
\<close>

fun append_entries :: "pystr option list \<Rightarrow> json list \<Rightarrow> pystr option list" where
  "append_entries scene_text [] = scene_text"
| "append_entries scene_text (text_entry # rest) =
     (case extract_character_and_text text_entry of
        (character, text) \<Rightarrow> append_entries (scene_text @ [character] @ [text]) rest)"

type_synonym payload = "pystr option list option list \<times> json list"

text \<open>
  The outer loop of \<open>extract_file\<close> over \<open>enumerate(scenes)\<close>, on the pair
  \<open>(user_text, user_select)\<close>. \<open>scene.get('texts')\<close> is \<open>None\<close> for a missing key, which is
  not a list.
\<close>

fun walk_scenes :: "nat \<Rightarrow> json list \<Rightarrow> payload \<Rightarrow> payload" where
  "walk_scenes scene_index [] payload = payload"
| "walk_scenes scene_index (JDict scene # rest) (user_text, user_select) =
     (let user_text =
            (case map_of scene (str ''texts'') of
               Some (JList scene_texts) \<Rightarrow>
                 (ensure_scene_slot None user_text scene_index)
                   [scene_index := Some (append_entries [] scene_texts)]
             | _ \<Rightarrow> user_text);
          user_select =
            (case map_of scene (str ''selects'') of
               Some selects \<Rightarrow>
                 (ensure_scene_slot JNull user_select scene_index) [scene_index := selects]
             | None \<Rightarrow> user_select)
      in walk_scenes (Suc scene_index) rest (user_text, user_select))"
| "walk_scenes scene_index (_ # rest) payload = walk_scenes (Suc scene_index) rest payload"

section \<open>The output formatter\<close>

text \<open>
  \<open>json.dumps(value, ensure_ascii = False)\<close> on a string: the quotation mark, the
  backslash and the control characters below 0x20 are escaped, everything else is kept.
\<close>

definition hex_digit :: "nat \<Rightarrow> nat" where
  "hex_digit d = (if d < 10 then 48 + d else 87 + d)"

definition escape_char :: "nat \<Rightarrow> pystr" where
  "escape_char c =
     (if c = 92 then [92, 92]
      else if c = 34 then [92, 34]
      else if c = 8 then [92, 98]
      else if c = 12 then [92, 102]
      else if c = 10 then [92, 110]
      else if c = 13 then [92, 114]
      else if c = 9 then [92, 116]
      else if c < 32 then [92, 117, 48, 48, hex_digit (c div 16), hex_digit (c mod 16)]
      else [c])"

definition encode_basestring :: "pystr \<Rightarrow> pystr" where
  "encode_basestring s = [34] @ concat (map escape_char s) @ [34]"

text \<open>The values of the text payload are \<open>None\<close> or a string.\<close>

fun dumps_value :: "pystr option \<Rightarrow> pystr" where
  "dumps_value None = str ''null''"
| "dumps_value (Some s) = encode_basestring s"

text \<open>The loop of \<open>format_scene\<close> over \<open>enumerate(scene_data)\<close>.\<close>

fun format_items :: "nat \<Rightarrow> pystr option list \<Rightarrow> pystr list" where
  "format_items index [] = []"
| "format_items index (v # vs) =
     (if index mod 2 = 0 then dumps_value v else str ''  '' @ dumps_value v)
       # format_items (Suc index) vs"

fun format_scene :: "pystr option list option \<Rightarrow> pystr" where
  "format_scene None = [10] @ str ''  null''"
| "format_scene (Some scene_data) =
     [10] @ str ''  ['' @ [10] @ str ''    ''
       @ py_join (str '','' @ [10] @ str ''    '') (format_items 0 scene_data)
       @ [10] @ str ''  ]''"

definition build_text_output :: "pystr option list option list \<Rightarrow> pystr" where
  "build_text_output text_payload =
     str ''['' @ py_join (str '','') (map format_scene text_payload) @ [10] @ str '']''"

text \<open>
  \<open>json.dump(value, f, ensure_ascii = False, indent = 2)\<close>: an empty list is \<open>[]\<close> and an
  empty dict \<open>{}\<close>; otherwise every element is on a line of its own, indented by two
  spaces per level, the separators being \<open>,\<close> and \<open>: \<close>.
\<close>

function digits :: "nat \<Rightarrow> pystr" where
  "digits n = (if n < 10 then [48 + n] else digits (n div 10) @ [48 + n mod 10])"
  by pat_completeness auto
termination
  by (relation "measure (\<lambda>n. n)") auto

declare digits.simps [simp del]

definition int_repr :: "int \<Rightarrow> pystr" where
  "int_repr i = (if i < 0 then 45 # digits (nat (- i)) else digits (nat i))"

definition newline_indent :: "nat \<Rightarrow> pystr" where
  "newline_indent level = 10 # replicate (2 * level) 32"

fun json_dump :: "nat \<Rightarrow> json \<Rightarrow> pystr"
  and dump_items :: "nat \<Rightarrow> json list \<Rightarrow> pystr list"
  and dump_members :: "nat \<Rightarrow> (pystr \<times> json) list \<Rightarrow> pystr list" where
  "json_dump level JNull = str ''null''"
| "json_dump level (JBool b) = (if b then str ''true'' else str ''false'')"
| "json_dump level (JInt i) = int_repr i"
| "json_dump level (JFloat r) = r"
| "json_dump level (JStr s) = encode_basestring s"
| "json_dump level (JList xs) =
     (if xs = [] then str ''[]''
      else str ''['' @ newline_indent (Suc level)
        @ py_join (str '','' @ newline_indent (Suc level)) (dump_items (Suc level) xs)
        @ newline_indent level @ str '']'')"
| "json_dump level (JDict kvs) =
     (if kvs = [] then str ''{}''
      else str ''{'' @ newline_indent (Suc level)
        @ py_join (str '','' @ newline_indent (Suc level)) (dump_members (Suc level) kvs)
        @ newline_indent level @ str ''}'')"
| "dump_items level [] = []"
| "dump_items level (x # xs) = json_dump level x # dump_items level xs"
| "dump_members level [] = []"
| "dump_members level ((k, v) # kvs) =
     (encode_basestring k @ str '': '' @ json_dump level v) # dump_members level kvs"

section \<open>Files and the driver\<close>

text \<open>
  The part of the file system the program touches. Modification times are values of any
  linear order \<open>'t\<close>. Manifest names are taken as plain file names, each naming one file
  in each of the three directories.
  \<^item> \<open>manifest\<close>: the lines of \<open>jsonlist.txt\<close>, or \<open>None\<close> when the file is missing;
  \<^item> \<open>json_dir\<close>: for each name under \<open>json/\<close> its modification time and the document
    \<open>json.load\<close> returns, or \<open>None\<close> when the content is not JSON;
  \<^item> \<open>text_dir\<close>, \<open>select_dir\<close>: the contents of the files under \<open>extract/text/\<close> and
    \<open>extract/select/\<close>;
  \<^item> \<open>last_extract\<close>: the modification time and the content of \<open>last_extract_time.txt\<close>;
  \<^item> \<open>stderr\<close>: the lines logged so far.
\<close>

record 't world =
  manifest :: "pystr list option"
  json_dir :: "pystr \<rightharpoonup> 't \<times> json option"
  text_dir :: "pystr \<rightharpoonup> pystr"
  select_dir :: "pystr \<rightharpoonup> pystr"
  last_extract :: "('t \<times> pystr) option"
  stderr :: "pystr list"

datatype error = FileNotFoundError pystr | JSONDecodeError pystr

definition log :: "pystr \<Rightarrow> 't world \<Rightarrow> 't world" where
  "log message w = w\<lparr>stderr := stderr w @ [message]\<rparr>"

definition read_json_file_list :: "'t world \<Rightarrow> error + pystr list" where
  "read_json_file_list w =
     (case manifest w of
        None \<Rightarrow> Inl (FileNotFoundError (str ''jsonlist.txt''))
      | Some lines \<Rightarrow> Inr (filter (\<lambda>line. line \<noteq> []) lines))"

text \<open>The loop of \<open>collect_modified_files\<close>, with the list \<open>targets\<close> it appends to.\<close>

fun collect_loop ::
  "('t::linorder) world \<Rightarrow> pystr list \<Rightarrow> pystr list \<Rightarrow> pystr list" where
  "collect_loop w [] targets = targets"
| "collect_loop w (name # names) targets =
     (case json_dir w name of
        None \<Rightarrow> collect_loop w names targets
      | Some (source_mtime, content) \<Rightarrow>
         (case last_extract w of
            None \<Rightarrow> collect_loop w names (targets @ [name])
          | Some (last_extract_mtime, stamp) \<Rightarrow>
             (if source_mtime > last_extract_mtime
              then collect_loop w names (targets @ [name])
              else collect_loop w names targets)))"

definition collect_modified_files :: "pystr list \<Rightarrow> ('t::linorder) world \<Rightarrow> pystr list" where
  "collect_modified_files json_files w = collect_loop w json_files []"

definition write_extract_files ::
  "pystr \<Rightarrow> pystr option list option list \<Rightarrow> json list \<Rightarrow> 't world \<Rightarrow> 't world" where
  "write_extract_files filename user_text user_select w =
     w\<lparr>text_dir := (text_dir w)(filename \<mapsto> build_text_output user_text),
       select_dir := (select_dir w)(filename \<mapsto> json_dump 0 (JList user_select))\<rparr>"

text \<open>\<open>origin_json.get('scenes') if isinstance(origin_json, dict) else None\<close>.\<close>

fun get_scenes :: "json \<Rightarrow> json" where
  "get_scenes (JDict origin_json) =
     (case map_of origin_json (str ''scenes'') of Some scenes \<Rightarrow> scenes | None \<Rightarrow> JNull)"
| "get_scenes _ = JNull"

definition extract_file :: "pystr \<Rightarrow> 't world \<Rightarrow> 't world \<times> (error + bool)" where
  "extract_file filename w =
     (case json_dir w filename of
        None \<Rightarrow> (w, Inl (FileNotFoundError filename))
      | Some (source_mtime, None) \<Rightarrow> (w, Inl (JSONDecodeError filename))
      | Some (source_mtime, Some origin_json) \<Rightarrow>
         (case get_scenes origin_json of
            JList scenes \<Rightarrow>
              (case walk_scenes 0 scenes ([], []) of
                 (user_text, user_select) \<Rightarrow>
                   (log (filename @ str '' extract DONE!'')
                      (write_extract_files filename user_text user_select w), Inr True))
          | _ \<Rightarrow>
              (log (filename @ str '' skipped (no scenes).'')
                 (write_extract_files filename [] [] w), Inr True)))"

text \<open>
  \<open>update_extract_time\<close> writes \<open>time.asctime()\<close> to the timestamp file; \<open>now\<close> is the
  modification time the file gets.
\<close>

definition update_extract_time :: "'t \<Rightarrow> pystr \<Rightarrow> 't world \<Rightarrow> 't world" where
  "update_extract_time now asctime w =
     log (str ''Extract time updated.'') (w\<lparr>last_extract := Some (now, asctime)\<rparr>)"

text \<open>The loop of \<open>main\<close> over \<open>modified_files\<close>; an exception ends it.\<close>

fun extract_all :: "pystr list \<Rightarrow> bool \<Rightarrow> 't world \<Rightarrow> 't world \<times> (error + bool)" where
  "extract_all [] new_extract w = (w, Inr new_extract)"
| "extract_all (filename # rest) new_extract w =
     (case extract_file filename w of
        (w', Inl e) \<Rightarrow> (w', Inl e)
      | (w', Inr extracted) \<Rightarrow>
          extract_all rest (if extracted then True else new_extract) w')"

definition main :: "'t \<Rightarrow> pystr \<Rightarrow> ('t::linorder) world \<Rightarrow> 't world \<times> (error + int)" where
  "main now asctime w =
     (case read_json_file_list w of
        Inl e \<Rightarrow> (w, Inl e)
      | Inr json_file_list \<Rightarrow>
         (case extract_all (collect_modified_files json_file_list w) False w of
            (w', Inl e) \<Rightarrow> (w', Inl e)
          | (w', Inr new_extract) \<Rightarrow>
             (if \<not> new_extract
              then (log (str ''No file updated, have a good day!'') w', Inr 0)
              else (update_extract_time now asctime w', Inr 0))))"

section \<open>Notions of the specification\<close>

text \<open>
  A marker is bordered when a proper, non-empty prefix of it is also a suffix; two
  occurrences of an unbordered marker cannot overlap.
\<close>

definition bordered :: "pystr \<Rightarrow> bool" where
  "bordered m = (\<exists>k \<in> {1..<length m}. take k m = drop (length m - k) m)"

text \<open>
  The Entry Resolver in the words of the specification: a Language Item is a list of
  length at least 2 whose second element is a string; the resolver returns the first
  field that is a non-empty list of Language Items.
\<close>

fun spec_language_item :: "json \<Rightarrow> bool" where
  "spec_language_item (JList (character # JStr text # rest)) = True"
| "spec_language_item _ = False"

fun spec_language_field :: "json \<Rightarrow> bool" where
  "spec_language_field (JList []) = False"
| "spec_language_field (JList (item # items)) = list_all spec_language_item (item # items)"
| "spec_language_field _ = False"

definition spec_find_language_list :: "json \<Rightarrow> json list option" where
  "spec_find_language_list entry =
     (case entry of
        JList entry_fields \<Rightarrow>
          (case find spec_language_field entry_fields of
             Some (JList field) \<Rightarrow> Some field
           | _ \<Rightarrow> None)
      | _ \<Rightarrow> None)"

text \<open>
  What a scene contributes: its \<open>texts\<close> when it is a dict whose \<open>texts\<close> is a list, its
  \<open>selects\<close> when it is a dict with that key.
\<close>

fun texts_of :: "json \<Rightarrow> json list option" where
  "texts_of (JDict scene) =
     (case map_of scene (str ''texts'') of Some (JList texts) \<Rightarrow> Some texts | _ \<Rightarrow> None)"
| "texts_of _ = None"

fun selects_of :: "json \<Rightarrow> json option" where
  "selects_of (JDict scene) = map_of scene (str ''selects'')"
| "selects_of _ = None"

text \<open>
  \<open>slots_needed P xs\<close> is one more than the highest index of \<open>xs\<close> at which \<open>P\<close> holds,
  and 0 when there is none.
\<close>

fun slots_needed :: "('a \<Rightarrow> bool) \<Rightarrow> 'a list \<Rightarrow> nat" where
  "slots_needed P [] = 0"
| "slots_needed P (x # xs) =
     (if slots_needed P xs = 0 then (if P x then 1 else 0) else Suc (slots_needed P xs))"

definition text_slot :: "json \<Rightarrow> pystr option list option" where
  "text_slot scene = map_option (append_entries []) (texts_of scene)"

definition select_slot :: "json \<Rightarrow> json" where
  "select_slot scene = (case selects_of scene of Some selects \<Rightarrow> selects | None \<Rightarrow> JNull)"

text \<open>
  The state of one payload list when the walk has reached \<open>index\<close>, in closed form:
  the list so far, \<open>none\<close> up to \<open>index\<close>, then the slots of the remaining scenes up to
  the last scene that contributes.
\<close>

definition walked :: "'a \<Rightarrow> ('b \<Rightarrow> 'a) \<Rightarrow> ('b \<Rightarrow> bool) \<Rightarrow> nat \<Rightarrow> 'b list \<Rightarrow> 'a list \<Rightarrow> 'a list" where
  "walked none slot P index scenes container =
     (if slots_needed P scenes = 0 then container
      else container @ replicate (index - length container) none
             @ take (slots_needed P scenes) (map slot scenes))"

text \<open>
  A file system with the manifest \<open>a.json\<close>, one source file \<open>a.json\<close> with the given
  modification time and an empty list of scenes, no output and no timestamp file.
\<close>

definition one_source_world :: "nat \<Rightarrow> nat world" where
  "one_source_world source_mtime =
     \<lparr>manifest = Some [str ''a.json''],
      json_dir = [str ''a.json'' \<mapsto> (source_mtime, Some (JDict [(str ''scenes'', JList [])]))],
      text_dir = Map.empty, select_dir = Map.empty,
      last_extract = None, stderr = []\<rparr>"

section \<open>Properties of marker cleaning\<close>

lemma no_prefix_across:
  assumes nb: "\<not> bordered m" and ne: "m \<noteq> []" and ns: "\<not> sublist m (c # p)"
  shows "\<not> prefix m (c # p @ m @ rest)"
proof
  assume pr: "prefix m (c # p @ m @ rest)"
  show False
  proof (cases "length m \<le> length (c # p)")
    case True
    from pr have "prefix m ((c # p) @ (m @ rest))" by simp
    moreover have "prefix (c # p) ((c # p) @ (m @ rest))" by (rule prefixI) simp
    ultimately have "prefix m (c # p)" using True by (rule prefix_length_prefix)
    then have "sublist m (c # p)" by (rule prefix_imp_sublist)
    with ns show False by contradiction
  next
    case False
    then have lt: "length (c # p) < length m" by simp
    from pr obtain zs where eq: "(c # p) @ m @ rest = m @ zs"
      by (auto simp: prefix_def)
    define k where "k = length m - length (c # p)"
    have k1: "1 \<le> k" and k2: "k < length m" using lt by (simp_all add: k_def)
    have "drop (length (c # p)) ((c # p) @ m @ rest) = drop (length (c # p)) (m @ zs)"
      using eq by simp
    with lt have "m @ rest = drop (length (c # p)) m @ zs" by simp
    then have "take k (m @ rest) = take k (drop (length (c # p)) m @ zs)" by simp
    then have m2: "drop (length (c # p)) m = take k m"
      using k2 by (simp add: k_def)
    have "length m - k = length (c # p)" using lt by (simp add: k_def)
    with m2 have "take k m = drop (length m - k) m" by simp
    with k1 k2 have "bordered m" by (auto simp: bordered_def)
    with nb show False by contradiction
  qed
qed

lemma replace_scan_piece:
  assumes nb: "\<not> bordered m" and ne: "m \<noteq> []"
  shows "\<not> sublist m p \<Longrightarrow> replace_scan m [] (p @ m @ rest) = p @ replace_scan m [] rest"
proof (induction p)
  case Nil
  from ne obtain c cs where m: "m = c # cs" by (cases m) auto
  have "replace_scan m [] (c # cs @ rest) = replace_scan m [] (drop (length m) (c # cs @ rest))"
    using m by simp
  then show ?case using m by simp
next
  case (Cons c p)
  have np: "\<not> prefix m (c # p @ m @ rest)"
    using nb ne Cons.prems by (rule no_prefix_across)
  have "\<not> sublist m p" using Cons.prems by (auto simp: sublist_Cons_right)
  then have "replace_scan m [] (p @ m @ rest) = p @ replace_scan m [] rest"
    by (rule Cons.IH)
  with np show ?case by simp
qed

lemma replace_scan_free:
  "\<not> sublist m p \<Longrightarrow> replace_scan m [] p = p"
proof (induction p)
  case Nil
  show ?case by simp
next
  case (Cons c p)
  have "\<not> prefix m (c # p)" using Cons.prems prefix_imp_sublist by blast
  moreover have "\<not> sublist m p" using Cons.prems by (auto simp: sublist_Cons_right)
  ultimately show ?case using Cons.IH by simp
qed

lemma replace_scan_join:
  assumes nb: "\<not> bordered m" and ne: "m \<noteq> []"
  shows "\<forall>p \<in> set ps. \<not> sublist m p \<Longrightarrow> replace_scan m [] (py_join m ps) = concat ps"
proof (induction ps rule: induct_list012)
  case 1
  show ?case by simp
next
  case (2 x)
  then show ?case by (simp add: replace_scan_free)
next
  case (3 x y ys)
  have "\<not> sublist m x" using 3 by simp
  with nb ne have "replace_scan m [] (x @ m @ py_join m (y # ys))
      = x @ replace_scan m [] (py_join m (y # ys))"
    by (rule replace_scan_piece)
  then show ?case using 3 by simp
qed

lemma join_exists:
  assumes ne: "m \<noteq> []"
  shows "\<exists>ps. t = py_join m ps \<and> (\<forall>p \<in> set ps. \<not> sublist m p)"
proof (induction t rule: length_induct)
  case (1 t)
  show ?case
  proof (cases "sublist m t")
    case False
    then have "t = py_join m [t] \<and> (\<forall>p \<in> set [t]. \<not> sublist m p)" by simp
    then show ?thesis by blast
  next
    case True
    define n where "n = (LEAST n. \<exists>a b. t = a @ m @ b \<and> length a = n)"
    from True have ex: "\<exists>n. \<exists>a b. t = a @ m @ b \<and> length a = n"
      by (auto simp: sublist_def)
    from LeastI_ex [OF ex] obtain a b where t: "t = a @ m @ b" and la: "length a = n"
      unfolding n_def by blast
    have free: "\<not> sublist m a"
    proof
      assume "sublist m a"
      then obtain a1 a2 where a: "a = a1 @ m @ a2" by (auto simp: sublist_def)
      then have "t = a1 @ m @ (a2 @ m @ b) \<and> length a1 = length a1" using t by simp
      then have "n \<le> length a1" unfolding n_def by (intro Least_le) blast
      with a la ne show False by (cases m) auto
    qed
    have "length b < length t" using t ne by (cases m) auto
    with 1 obtain qs where b: "b = py_join m qs" and qf: "\<forall>p \<in> set qs. \<not> sublist m p"
      by blast
    show ?thesis
    proof (cases qs)
      case Nil
      then have "t = py_join m [a, []] \<and> (\<forall>p \<in> set [a, []]. \<not> sublist m p)"
        using t b free ne by simp
      then show ?thesis by blast
    next
      case (Cons q qs')
      then have "t = py_join m (a # qs) \<and> (\<forall>p \<in> set (a # qs). \<not> sublist m p)"
        using t b free qf by simp
      then show ?thesis by blast
    qed
  qed
qed

lemma marker1_unbordered: "\<not> bordered (str ''%fSourceHanSansCN-M;'')"
  by code_simp

lemma marker2_unbordered: "\<not> bordered (str ''%f;'')"
  by code_simp

lemma remove_marker_join:
  assumes "\<not> bordered m" and "m \<noteq> []" and "\<forall>p \<in> set ps. \<not> sublist m p"
  shows "py_replace m [] (py_join m ps) = concat ps"
  using assms by (simp add: py_replace_def replace_scan_join)

text \<open>
  Claim C7. Marker cleaning removes every occurrence of \<open>%fSourceHanSansCN-M;\<close> and then
  every occurrence of \<open>%f;\<close>. Every text is a sequence of pieces free of the first marker,
  separated by that marker; the pieces put together are a sequence of pieces free of the
  second marker, separated by the second marker; cleaning returns these last pieces put
  together. The text \<open>%fSourceHanSansCN-M;Hello%f;\<close> cleans to \<open>Hello\<close>.
\<close>

theorem clean_text_markers_removes_occurrences:
  "((\<forall>p \<in> set ps. \<not> sublist (str ''%fSourceHanSansCN-M;'') p) \<and>
    concat ps = py_join (str ''%f;'') qs \<and>
    (\<forall>q \<in> set qs. \<not> sublist (str ''%f;'') q)
    \<longrightarrow> clean_text_markers (Some (py_join (str ''%fSourceHanSansCN-M;'') ps)) = Some (concat qs))
   \<and> (\<exists>ps qs. text = py_join (str ''%fSourceHanSansCN-M;'') ps \<and>
          (\<forall>p \<in> set ps. \<not> sublist (str ''%fSourceHanSansCN-M;'') p) \<and>
          concat ps = py_join (str ''%f;'') qs \<and>
          (\<forall>q \<in> set qs. \<not> sublist (str ''%f;'') q))
   \<and> clean_text_markers (Some (str ''%fSourceHanSansCN-M;Hello%f;'')) = Some (str ''Hello'')"
proof (intro conjI impI)
  assume a: "(\<forall>p \<in> set ps. \<not> sublist (str ''%fSourceHanSansCN-M;'') p) \<and>
    concat ps = py_join (str ''%f;'') qs \<and>
    (\<forall>q \<in> set qs. \<not> sublist (str ''%f;'') q)"
  have n1: "str ''%fSourceHanSansCN-M;'' \<noteq> []" and n2: "str ''%f;'' \<noteq> []"
    by (simp_all add: str_def)
  have "py_replace (str ''%fSourceHanSansCN-M;'') [] (py_join (str ''%fSourceHanSansCN-M;'') ps)
      = concat ps"
    using marker1_unbordered n1 a by (intro remove_marker_join) simp_all
  moreover have "py_replace (str ''%f;'') [] (py_join (str ''%f;'') qs) = concat qs"
    using marker2_unbordered n2 a by (intro remove_marker_join) simp_all
  ultimately show "clean_text_markers (Some (py_join (str ''%fSourceHanSansCN-M;'') ps))
      = Some (concat qs)"
    using a by (simp add: TEXT_MARKERS_TO_REMOVE_def)
next
  have n1: "str ''%fSourceHanSansCN-M;'' \<noteq> []" and n2: "str ''%f;'' \<noteq> []"
    by (simp_all add: str_def)
  from join_exists [OF n1] obtain ps where
    ps: "text = py_join (str ''%fSourceHanSansCN-M;'') ps"
        "\<forall>p \<in> set ps. \<not> sublist (str ''%fSourceHanSansCN-M;'') p"
    by blast
  from join_exists [OF n2] obtain qs where
    qs: "concat ps = py_join (str ''%f;'') qs" "\<forall>q \<in> set qs. \<not> sublist (str ''%f;'') q"
    by blast
  from ps qs show "\<exists>ps qs. text = py_join (str ''%fSourceHanSansCN-M;'') ps \<and>
          (\<forall>p \<in> set ps. \<not> sublist (str ''%fSourceHanSansCN-M;'') p) \<and>
          concat ps = py_join (str ''%f;'') qs \<and>
          (\<forall>q \<in> set qs. \<not> sublist (str ''%f;'') q)"
    by blast
next
  show "clean_text_markers (Some (str ''%fSourceHanSansCN-M;Hello%f;'')) = Some (str ''Hello'')"
    by (simp add: TEXT_MARKERS_TO_REMOVE_def py_replace_def str_def)
qed

theorem clean_text_markers_removes_occurrences_witness:
  "clean_text_markers (Some (str ''a%f%fSourceHanSansCN-M;;b%fSourceHanSansCN-M;c%f;''))
     = Some (str ''abc'')"
proof -
  have p: "\<forall>p \<in> set [str ''a%f'', str '';b'', str ''c%f;''].
      \<not> sublist (str ''%fSourceHanSansCN-M;'') p"
    by (simp add: str_def sublist_Cons_right)
  have q: "\<forall>q \<in> set [str ''a'', str ''bc'', []]. \<not> sublist (str ''%f;'') q"
    by (simp add: str_def sublist_Cons_right)
  have c: "concat [str ''a%f'', str '';b'', str ''c%f;''] = py_join (str ''%f;'') [str ''a'', str ''bc'', []]"
    by (simp add: str_def)
  have "clean_text_markers (Some (py_join (str ''%fSourceHanSansCN-M;'')
      [str ''a%f'', str '';b'', str ''c%f;''])) = Some (concat [str ''a'', str ''bc'', []])"
    using clean_text_markers_removes_occurrences
      [of "[str ''a%f'', str '';b'', str ''c%f;'']" "[str ''a'', str ''bc'', []]"] p q c
    by blast
  then show ?thesis by (simp add: str_def)
qed

text \<open>
  The second pass starts from the result of the first and each pass looks at its input
  once, so a marker that only comes into being when an occurrence is taken out stays.
\<close>

lemma clean_text_markers_may_leave_marker:
  "clean_text_markers (Some (str ''%%f;f;'')) = Some (str ''%f;'')"
  by (simp add: TEXT_MARKERS_TO_REMOVE_def py_replace_def str_def)

section \<open>Properties of the entry resolver\<close>

lemma is_language_item_spec: "is_language_item v = spec_language_item v"
proof (cases v)
  case (JList xs)
  show ?thesis
  proof (cases xs)
    case Nil
    with JList show ?thesis by simp
  next
    case (Cons a ys)
    show ?thesis
    proof (cases ys)
      case Nil
      with JList Cons show ?thesis by simp
    next
      case (Cons b zs)
      with JList \<open>xs = a # ys\<close> show ?thesis by (cases b) simp_all
    qed
  qed
qed simp_all

lemma list_all_language_item_spec:
  "list_all is_language_item xs = list_all spec_language_item xs"
  by (induction xs) (simp_all add: is_language_item_spec)

lemma scan_fields_spec:
  "scan_fields entry_fields =
     (case find spec_language_field entry_fields of Some (JList field) \<Rightarrow> Some field | _ \<Rightarrow> None)"
proof (induction entry_fields)
  case Nil
  show ?case by simp
next
  case (Cons f entry_fields)
  show ?case
  proof (cases f)
    case (JList xs)
    with Cons show ?thesis
      by (cases xs) (simp_all add: list_all_language_item_spec is_language_item_spec)
  qed (use Cons in simp_all)
qed

text \<open>
  Claim C4. For every value, the Entry Resolver returns the first field, in the order of
  the entry, that is a non-empty list whose elements all are lists of length at least 2
  with a string as second element; it returns nothing when the entry is not a list or
  has no such field.
\<close>

theorem find_language_list_first_field:
  "find_language_list entry = spec_find_language_list entry"
proof (cases entry)
  case (JList entry_fields)
  have "find_language_list (JList entry_fields) = scan_fields entry_fields" by simp
  also have "\<dots> = (case find spec_language_field entry_fields of
      Some (JList field) \<Rightarrow> Some field | _ \<Rightarrow> None)"
    by (rule scan_fields_spec)
  also have "\<dots> = spec_find_language_list (JList entry_fields)"
    by (simp add: spec_find_language_list_def)
  finally show ?thesis using JList by simp
qed (simp_all add: spec_find_language_list_def)

theorem find_language_list_first_field_witness:
  "find_language_list
     (JList [JStr (str ''Amy''), JList [], JList [JList [JStr (str ''A'')]],
             JList [JList [JNull, JStr (str ''x''), JInt 1], JList [JStr [], JStr []]],
             JList [JList [JStr (str ''B''), JStr (str ''y'')]]])
   = Some [JList [JNull, JStr (str ''x''), JInt 1], JList [JStr [], JStr []]]"
  using find_language_list_first_field
    [of "JList [JStr (str ''Amy''), JList [], JList [JList [JStr (str ''A'')]],
             JList [JList [JNull, JStr (str ''x''), JInt 1], JList [JStr [], JStr []]],
             JList [JList [JStr (str ''B''), JStr (str ''y'')]]]"]
  by (simp add: spec_find_language_list_def)

section \<open>Properties of the language selector\<close>

lemma pick_zh_find:
  "pick_zh items = find (\<lambda>item. has_text item \<and> (\<exists>c \<in> set (the_str (elems item ! 1)). zh_char c)) items"
  by (induction items) (auto simp: ZH_RE_search_def list_ex_iff)

lemma pick_nonempty_find: "pick_nonempty items = find has_text items"
  by (induction items) auto

text \<open>
  Claim C1. The Language Selector picks the item at index 3 when that index exists and
  the item is a Language Item with non-empty text, else likewise the item at index 2;
  else the first item, in forward order, whose non-empty text has a code point in
  0x3400-0x4DBF, 0x4E00-0x9FFF or 0xF900-0xFAFF; else the first item with non-empty text
  in reverse order; else no item. An item has text when it is a list of at least two
  elements whose second element is a non-empty string. For the list of the four items
  A, B, C and D, where only C has text, the two code points 0x4F60 0x597D, the item C is
  selected.
\<close>

theorem pick_language_entry_tiers:
  "pick_language_entry language_list =
     (if 3 < length language_list \<and> has_text (language_list ! 3) then Some (language_list ! 3)
      else if 2 < length language_list \<and> has_text (language_list ! 2) then Some (language_list ! 2)
      else (case find (\<lambda>item. has_text item \<and>
                        (\<exists>c \<in> set (the_str (elems item ! 1)).
                           (0x3400 \<le> c \<and> c \<le> 0x4DBF) \<or> (0x4E00 \<le> c \<and> c \<le> 0x9FFF)
                             \<or> (0xF900 \<le> c \<and> c \<le> 0xFAFF)))
                   language_list of
              Some item \<Rightarrow> Some item
            | None \<Rightarrow> find has_text (rev language_list)))
   \<and> (has_text item \<longleftrightarrow>
        (\<exists>character text rest. item = JList (character # JStr text # rest) \<and> text \<noteq> []))
   \<and> pick_language_entry
        [JList [JStr (str ''A''), JStr []], JList [JStr (str ''B''), JStr []],
         JList [JStr (str ''C''), JStr [0x4F60, 0x597D]], JList [JStr (str ''D''), JStr []]]
      = Some (JList [JStr (str ''C''), JStr [0x4F60, 0x597D]])"
proof (intro conjI)
  show "pick_language_entry language_list =
     (if 3 < length language_list \<and> has_text (language_list ! 3) then Some (language_list ! 3)
      else if 2 < length language_list \<and> has_text (language_list ! 2) then Some (language_list ! 2)
      else (case find (\<lambda>item. has_text item \<and>
                        (\<exists>c \<in> set (the_str (elems item ! 1)).
                           (0x3400 \<le> c \<and> c \<le> 0x4DBF) \<or> (0x4E00 \<le> c \<and> c \<le> 0x9FFF)
                             \<or> (0xF900 \<le> c \<and> c \<le> 0xFAFF)))
                   language_list of
              Some item \<Rightarrow> Some item
            | None \<Rightarrow> find has_text (rev language_list)))"
    by (simp add: pick_language_entry_def PREFERRED_ZH_INDEXES_def pick_zh_find
        pick_nonempty_find zh_char_def split: option.split)
next
  show "has_text item \<longleftrightarrow>
        (\<exists>character text rest. item = JList (character # JStr text # rest) \<and> text \<noteq> [])"
  proof (cases item)
    case (JList xs)
    show ?thesis
    proof (cases xs)
      case Nil
      with JList show ?thesis by (simp add: has_text_def)
    next
      case (Cons a ys)
      show ?thesis
      proof (cases ys)
        case Nil
        with JList Cons show ?thesis by (simp add: has_text_def)
      next
        case (Cons b zs)
        with JList \<open>xs = a # ys\<close> show ?thesis by (cases b) (simp_all add: has_text_def)
      qed
    qed
  qed (simp_all add: has_text_def)
next
  show "pick_language_entry
        [JList [JStr (str ''A''), JStr []], JList [JStr (str ''B''), JStr []],
         JList [JStr (str ''C''), JStr [0x4F60, 0x597D]], JList [JStr (str ''D''), JStr []]]
      = Some (JList [JStr (str ''C''), JStr [0x4F60, 0x597D]])"
    by (simp add: pick_language_entry_def PREFERRED_ZH_INDEXES_def has_text_def)
qed

theorem pick_language_entry_tiers_witness:
  "pick_language_entry
     [JList [JStr (str ''A''), JStr (str ''x'')], JList [JStr (str ''B''), JStr [0x4F60]]]
   = Some (JList [JStr (str ''B''), JStr [0x4F60]])"
  using pick_language_entry_tiers
    [of "[JList [JStr (str ''A''), JStr (str ''x'')], JList [JStr (str ''B''), JStr [0x4F60]]]"
        JNull, THEN conjunct1]
  by (simp add: has_text_def str_def)

lemma pick_preferred_has_text:
  "pick_preferred indexes language_list = Some item \<Longrightarrow> has_text item"
  by (induction indexes) (auto split: if_splits)

lemma pick_zh_has_text: "pick_zh items = Some item \<Longrightarrow> has_text item"
  by (induction items) (auto split: if_splits)

lemma pick_nonempty_has_text: "pick_nonempty items = Some item \<Longrightarrow> has_text item"
  by (induction items) (auto split: if_splits)

lemma pick_language_entry_has_text:
  "pick_language_entry language_list = Some item \<Longrightarrow> has_text item"
  unfolding pick_language_entry_def
  by (auto split: option.splits
      dest: pick_preferred_has_text pick_zh_has_text pick_nonempty_has_text)

lemma pick_preferred_none:
  "\<forall>item \<in> set language_list. \<not> has_text item \<Longrightarrow> pick_preferred indexes language_list = None"
  by (induction indexes) auto

lemma pick_zh_none: "\<forall>item \<in> set items. \<not> has_text item \<Longrightarrow> pick_zh items = None"
  by (induction items) auto

lemma pick_nonempty_none: "\<forall>item \<in> set items. \<not> has_text item \<Longrightarrow> pick_nonempty items = None"
  by (induction items) auto

lemma pick_language_entry_none:
  "\<forall>item \<in> set language_list. \<not> has_text item \<Longrightarrow> pick_language_entry language_list = None"
  by (simp add: pick_language_entry_def pick_preferred_none pick_zh_none pick_nonempty_none)

section \<open>Properties of entry extraction\<close>

text \<open>
  Claim C2 says that the entry of the two strings \<open>Amy\<close> and \<open>Hi\<close> yields the character
  \<open>Amy\<close> and the text \<open>Hi\<close>. The program takes the text from index 1 and then looks
  for the character at index 1 first, so it returns \<open>Hi\<close> for both.
\<close>

theorem extract_legacy_pair_takes_text_as_character:
  "extract_character_and_text (JList [JStr (str ''Amy''), JStr (str ''Hi'')])
     = (Some (str ''Hi''), Some (str ''Hi''))"
  by (simp add: compat_fallback_def pick_fallback_character_def TEXT_MARKERS_TO_REMOVE_def
      py_replace_def str_def)

text \<open>
  Claim C3, as stated, fails: in the entry made of a language list whose only item is
  \<open>A\<close> with empty text, followed by the strings \<open>Bob\<close> and \<open>Hello\<close>, a language list is
  found and none of its items has text, yet the entry yields \<open>Bob\<close> and \<open>Hello\<close>.
\<close>

theorem empty_language_list_counterexample:
  "find_language_list
     (JList [JList [JList [JStr (str ''A''), JStr []]], JStr (str ''Bob''), JStr (str ''Hello'')])
     = Some [JList [JStr (str ''A''), JStr []]]
   \<and> \<not> has_text (JList [JStr (str ''A''), JStr []])
   \<and> extract_character_and_text
       (JList [JList [JList [JStr (str ''A''), JStr []]], JStr (str ''Bob''), JStr (str ''Hello'')])
     = (Some (str ''Bob''), Some (str ''Hello''))
   \<and> extract_character_and_text
       (JList [JList [JList [JStr (str ''A''), JStr []]], JStr (str ''Bob''), JStr (str ''Hello'')])
     \<noteq> (None, None)"
  by (simp add: has_text_def pick_language_entry_def PREFERRED_ZH_INDEXES_def
      compat_fallback_def pick_fallback_character_def TEXT_MARKERS_TO_REMOVE_def
      py_replace_def str_def)

text \<open>
  Claim C3, amended. When the Entry Resolver finds a language list in which no item has
  non-empty text, the Language Selector selects nothing and the entry is resolved by the
  compatibility fallback, as it is when no language list is found; when an item is
  selected, the result comes from that item and the fallback is not applied.
\<close>

theorem unselected_entry_falls_back:
  "(find_language_list (JList text_entry) = Some language_list \<and>
      (\<forall>item \<in> set language_list. \<not> has_text item)
      \<longrightarrow> pick_language_entry language_list = None \<and>
          extract_character_and_text (JList text_entry) = compat_fallback text_entry)
   \<and> (find_language_list (JList text_entry) = None
      \<longrightarrow> extract_character_and_text (JList text_entry) = compat_fallback text_entry)
   \<and> (find_language_list (JList text_entry) = Some language_list \<and>
      pick_language_entry language_list = Some selected
      \<longrightarrow> extract_character_and_text (JList text_entry) = from_selected text_entry selected)"
proof (intro conjI impI)
  assume a: "find_language_list (JList text_entry) = Some language_list \<and>
      (\<forall>item \<in> set language_list. \<not> has_text item)"
  then have n: "pick_language_entry language_list = None"
    by (simp add: pick_language_entry_none)
  then show "pick_language_entry language_list = None" .
  from a n show "extract_character_and_text (JList text_entry) = compat_fallback text_entry"
    by simp
next
  assume "find_language_list (JList text_entry) = None"
  then show "extract_character_and_text (JList text_entry) = compat_fallback text_entry"
    by simp
next
  assume a: "find_language_list (JList text_entry) = Some language_list \<and>
      pick_language_entry language_list = Some selected"
  then have "language_list \<noteq> []"
    by (auto simp: pick_language_entry_def PREFERRED_ZH_INDEXES_def)
  with a show "extract_character_and_text (JList text_entry) = from_selected text_entry selected"
    by simp
qed

theorem unselected_entry_falls_back_witness:
  "extract_character_and_text
     (JList [JList [JList [JStr (str ''A''), JStr []]], JStr (str ''Bob''), JStr (str ''Hello'')])
     = compat_fallback
         [JList [JList [JStr (str ''A''), JStr []]], JStr (str ''Bob''), JStr (str ''Hello'')]
   \<and> extract_character_and_text (JList [JStr (str ''Amy''), JStr (str ''Hi'')])
     = compat_fallback [JStr (str ''Amy''), JStr (str ''Hi'')]
   \<and> extract_character_and_text (JList [JList [JList [JStr (str ''A''), JStr (str ''x'')]]])
     = from_selected [JList [JList [JStr (str ''A''), JStr (str ''x'')]]]
         (JList [JStr (str ''A''), JStr (str ''x'')])"
proof -
  have h1: "find_language_list
      (JList [JList [JList [JStr (str ''A''), JStr []]], JStr (str ''Bob''), JStr (str ''Hello'')])
      = Some [JList [JStr (str ''A''), JStr []]]
    \<and> (\<forall>item \<in> set [JList [JStr (str ''A''), JStr []]]. \<not> has_text item)"
    by (simp add: has_text_def)
  have h2: "find_language_list (JList [JStr (str ''Amy''), JStr (str ''Hi'')]) = None"
    by simp
  have h3: "find_language_list (JList [JList [JList [JStr (str ''A''), JStr (str ''x'')]]])
      = Some [JList [JStr (str ''A''), JStr (str ''x'')]]
    \<and> pick_language_entry [JList [JStr (str ''A''), JStr (str ''x'')]]
      = Some (JList [JStr (str ''A''), JStr (str ''x'')])"
    by (simp add: pick_language_entry_def PREFERRED_ZH_INDEXES_def has_text_def
        ZH_RE_search_def zh_char_def str_def)
  note t1 = unselected_entry_falls_back [THEN conjunct1, THEN mp, OF h1, THEN conjunct2]
  note t2 = unselected_entry_falls_back [THEN conjunct2, THEN conjunct1, THEN mp, OF h2]
  note t3 = unselected_entry_falls_back [THEN conjunct2, THEN conjunct2, THEN mp, OF h3]
  from t1 t2 t3 show ?thesis by (intro conjI)
qed

text \<open>
  Claim C10. There is an entry with a language list for which extraction returns the
  empty string as text: the selected item, \<open>A\<close> with the text \<open>%f;\<close>, has non-empty
  text, as every selected item has, and cleaning takes all of it away.
\<close>

theorem cleaned_text_may_be_empty:
  "find_language_list (JList [JList [JList [JStr (str ''A''), JStr (str ''%f;'')]]])
     = Some [JList [JStr (str ''A''), JStr (str ''%f;'')]]
   \<and> pick_language_entry [JList [JStr (str ''A''), JStr (str ''%f;'')]]
     = Some (JList [JStr (str ''A''), JStr (str ''%f;'')])
   \<and> extract_character_and_text (JList [JList [JList [JStr (str ''A''), JStr (str ''%f;'')]]])
     = (Some (str ''A''), Some [])
   \<and> (pick_language_entry language_list = Some item \<longrightarrow> has_text item)"
proof (intro conjI impI)
  show "find_language_list (JList [JList [JList [JStr (str ''A''), JStr (str ''%f;'')]]])
     = Some [JList [JStr (str ''A''), JStr (str ''%f;'')]]"
    by simp
  show p: "pick_language_entry [JList [JStr (str ''A''), JStr (str ''%f;'')]]
     = Some (JList [JStr (str ''A''), JStr (str ''%f;'')])"
    by (simp add: pick_language_entry_def PREFERRED_ZH_INDEXES_def has_text_def
        ZH_RE_search_def zh_char_def str_def)
  have "from_selected [JList [JList [JStr (str ''A''), JStr (str ''%f;'')]]]
      (JList [JStr (str ''A''), JStr (str ''%f;'')]) = (Some (str ''A''), Some [])"
    by (simp add: from_selected_def TEXT_MARKERS_TO_REMOVE_def py_replace_def str_def)
  with p show "extract_character_and_text
      (JList [JList [JList [JStr (str ''A''), JStr (str ''%f;'')]]])
     = (Some (str ''A''), Some [])"
    by simp
next
  assume "pick_language_entry language_list = Some item"
  then show "has_text item" by (rule pick_language_entry_has_text)
qed

theorem cleaned_text_may_be_empty_witness:
  "pick_language_entry [JList [JStr (str ''B''), JStr (str ''%f;%f;'')]]
     = Some (JList [JStr (str ''B''), JStr (str ''%f;%f;'')])
   \<and> has_text (JList [JStr (str ''B''), JStr (str ''%f;%f;'')])"
proof -
  have h: "pick_language_entry [JList [JStr (str ''B''), JStr (str ''%f;%f;'')]]
      = Some (JList [JStr (str ''B''), JStr (str ''%f;%f;'')])"
    by (simp add: pick_language_entry_def PREFERRED_ZH_INDEXES_def has_text_def
        ZH_RE_search_def zh_char_def str_def)
  note t = cleaned_text_may_be_empty
    [THEN conjunct2, THEN conjunct2, THEN conjunct2, THEN mp, OF h]
  from h t show ?thesis by (rule conjI)
qed

section \<open>Properties of the scene walker\<close>

lemma ensure_scene_slot_pad:
  "ensure_scene_slot none container index =
     container @ replicate (Suc index - length container) none"
proof (induction none container index rule: ensure_scene_slot.induct)
  case (1 none container index)
  show ?case
  proof (cases "length container \<le> index")
    case True
    then have "Suc index - length container = Suc (index - length container)" by simp
    with True 1 show ?thesis
      by (subst ensure_scene_slot.simps) (simp add: replicate_app_Cons_same)
  next
    case False
    then show ?thesis by (subst ensure_scene_slot.simps) simp
  qed
qed

lemma store_slot:
  assumes "length container \<le> index"
  shows "(ensure_scene_slot none container index) [index := v] =
     container @ replicate (index - length container) none @ [v]"
proof -
  from assms have "Suc index - length container = Suc (index - length container)" by simp
  then have "replicate (Suc index - length container) none
      = replicate (index - length container) none @ [none]"
    by (simp add: replicate_append_same)
  then show ?thesis using assms
    by (simp add: ensure_scene_slot_pad list_update_append)
qed

lemma walked_Nil: "walked none slot P index [] container = container"
  by (simp add: walked_def)

lemma walked_hit:
  assumes "length container \<le> index" and "P scene"
  shows "walked none slot P index (scene # rest) container =
     walked none slot P (Suc index) rest
       (container @ replicate (index - length container) none @ [slot scene])"
  using assms by (simp add: walked_def)

lemma walked_miss:
  assumes "length container \<le> index" and "\<not> P scene" and "slot scene = none"
  shows "walked none slot P index (scene # rest) container =
     walked none slot P (Suc index) rest container"
proof -
  from assms have "Suc index - length container = Suc (index - length container)" by simp
  then have "replicate (Suc index - length container) none
      = replicate (index - length container) none @ [none]"
    by (simp add: replicate_append_same)
  with assms show ?thesis by (simp add: walked_def)
qed


lemma walk_scenes_walked:
  "length user_text \<le> index \<Longrightarrow> length user_select \<le> index \<Longrightarrow>
   walk_scenes index scenes (user_text, user_select) =
     (walked None text_slot (\<lambda>scene. texts_of scene \<noteq> None) index scenes user_text,
      walked JNull select_slot (\<lambda>scene. selects_of scene \<noteq> None) index scenes user_select)"
proof (induction scenes arbitrary: index user_text user_select)
  case Nil
  show ?case by (simp add: walked_Nil)
next
  case (Cons scene rest)
  let ?T = "\<lambda>scene. texts_of scene \<noteq> None"
  let ?S = "\<lambda>scene. selects_of scene \<noteq> None"
  define user_text' where "user_text' =
     (case texts_of scene of
        Some texts \<Rightarrow> user_text @ replicate (index - length user_text) None
                        @ [Some (append_entries [] texts)]
      | None \<Rightarrow> user_text)"
  define user_select' where "user_select' =
     (case selects_of scene of
        Some selects \<Rightarrow> user_select @ replicate (index - length user_select) JNull @ [selects]
      | None \<Rightarrow> user_select)"
  have lt: "length user_text' \<le> Suc index" and ls: "length user_select' \<le> Suc index"
    using Cons.prems by (auto simp: user_text'_def user_select'_def split: option.splits)
  have step: "walk_scenes index (scene # rest) (user_text, user_select)
      = walk_scenes (Suc index) rest (user_text', user_select')"
  proof (cases scene)
    case (JDict members)
    have t: "(case map_of members (str ''texts'') of
               Some (JList scene_texts) \<Rightarrow>
                 (ensure_scene_slot None user_text index)
                   [index := Some (append_entries [] scene_texts)]
             | _ \<Rightarrow> user_text) = user_text'"
      using Cons.prems JDict
      by (auto simp: user_text'_def store_slot split: option.splits json.splits)
    have s: "(case map_of members (str ''selects'') of
               Some selects \<Rightarrow>
                 (ensure_scene_slot JNull user_select index) [index := selects]
             | None \<Rightarrow> user_select) = user_select'"
      using Cons.prems JDict
      by (auto simp: user_select'_def store_slot split: option.splits)
    from JDict show ?thesis by (simp only: walk_scenes.simps Let_def t s)
  qed (simp_all add: user_text'_def user_select'_def)
  have wt: "walked None text_slot ?T index (scene # rest) user_text
      = walked None text_slot ?T (Suc index) rest user_text'"
  proof (cases "texts_of scene")
    case None
    then have "text_slot scene = None" by (simp add: text_slot_def)
    with None Cons.prems show ?thesis
      by (simp add: walked_miss user_text'_def)
  next
    case (Some texts)
    then have "text_slot scene = Some (append_entries [] texts)" by (simp add: text_slot_def)
    with Some Cons.prems show ?thesis
      by (simp add: walked_hit user_text'_def)
  qed
  have ws: "walked JNull select_slot ?S index (scene # rest) user_select
      = walked JNull select_slot ?S (Suc index) rest user_select'"
  proof (cases "selects_of scene")
    case None
    then have "select_slot scene = JNull" by (simp add: select_slot_def)
    with None Cons.prems show ?thesis
      by (simp add: walked_miss user_select'_def)
  next
    case (Some selects)
    then have "select_slot scene = selects" by (simp add: select_slot_def)
    with Some Cons.prems show ?thesis
      by (simp add: walked_hit user_select'_def)
  qed
  from Cons.IH [OF lt ls] step wt ws show ?case by simp
qed

lemma slots_needed_le: "slots_needed P xs \<le> length xs"
  by (induction xs) auto

lemma slots_needed_last: "slots_needed P xs = Suc m \<Longrightarrow> P (xs ! m)"
proof (induction xs arbitrary: m)
  case Nil
  then show ?case by simp
next
  case (Cons x xs)
  show ?case
  proof (cases "slots_needed P xs")
    case 0
    with Cons.prems show ?thesis by (auto split: if_splits)
  next
    case (Suc k)
    with Cons.prems have "m = Suc k" by simp
    with Suc Cons.IH show ?thesis by simp
  qed
qed

lemma slots_needed_covers: "i < length xs \<Longrightarrow> P (xs ! i) \<Longrightarrow> i < slots_needed P xs"
proof (induction xs arbitrary: i)
  case Nil
  then show ?case by simp
next
  case (Cons x xs)
  show ?case
  proof (cases i)
    case 0
    with Cons.prems show ?thesis by simp
  next
    case (Suc j)
    with Cons.prems have "j < slots_needed P xs" by (intro Cons.IH) simp_all
    with Suc show ?thesis by simp
  qed
qed

lemma slots_needed_Max:
  "slots_needed P xs =
     (if \<exists>i<length xs. P (xs ! i) then Suc (Max {i. i < length xs \<and> P (xs ! i)}) else 0)"
proof (cases "slots_needed P xs")
  case 0
  then have "\<not> (\<exists>i<length xs. P (xs ! i))"
    using slots_needed_covers [of _ xs P] by fastforce
  with 0 show ?thesis by simp
next
  case (Suc m)
  have m: "m < length xs" using Suc slots_needed_le [of P xs] by simp
  have p: "P (xs ! m)" using Suc by (rule slots_needed_last)
  have "Max {i. i < length xs \<and> P (xs ! i)} = m"
  proof (rule Max_eqI)
    show "finite {i. i < length xs \<and> P (xs ! i)}" by simp
    show "m \<in> {i. i < length xs \<and> P (xs ! i)}" using m p by simp
    fix y assume "y \<in> {i. i < length xs \<and> P (xs ! i)}"
    then have "y < slots_needed P xs" by (simp add: slots_needed_covers)
    with Suc show "y \<le> m" by simp
  qed
  with Suc m p show ?thesis by auto
qed

lemma walk_scenes_take:
  "walk_scenes 0 scenes ([], []) =
     (take (slots_needed (\<lambda>scene. texts_of scene \<noteq> None) scenes) (map text_slot scenes),
      take (slots_needed (\<lambda>scene. selects_of scene \<noteq> None) scenes) (map select_slot scenes))"
  by (simp add: walk_scenes_walked walked_def)

text \<open>
  Claim C5. After the walk over the scenes of a document, the text payload is as long as
  one more than the highest index of a scene with \<open>texts\<close> (0 when there is none) and
  the select payload as long as one more than the highest index of a scene with
  \<open>selects\<close>, each independently of the other key; slot \<open>i\<close> of either payload holds
  what scene \<open>i\<close> contributes and the null value when it contributes nothing. When
  only scene 2 has \<open>texts\<close>, the text payload has length 3 and slots 0 and 1 are null.
\<close>

theorem scene_slots_aligned:
  "walk_scenes 0 scenes ([], []) = (user_text, user_select) \<longrightarrow>
     length user_text =
       (if \<exists>i<length scenes. texts_of (scenes ! i) \<noteq> None
        then Suc (Max {i. i < length scenes \<and> texts_of (scenes ! i) \<noteq> None}) else 0)
   \<and> length user_select =
       (if \<exists>i<length scenes. selects_of (scenes ! i) \<noteq> None
        then Suc (Max {i. i < length scenes \<and> selects_of (scenes ! i) \<noteq> None}) else 0)
   \<and> (\<forall>i<length user_text.
         user_text ! i = map_option (append_entries []) (texts_of (scenes ! i)))
   \<and> (\<forall>i<length user_select.
         user_select ! i =
           (case selects_of (scenes ! i) of Some selects \<Rightarrow> selects | None \<Rightarrow> JNull))
   \<and> (2 < length scenes \<and> texts_of (scenes ! 2) \<noteq> None \<and>
        (\<forall>i<length scenes. i \<noteq> 2 \<longrightarrow> texts_of (scenes ! i) = None)
        \<longrightarrow> length user_text = 3 \<and> user_text ! 0 = None \<and> user_text ! 1 = None)"
proof
  let ?T = "\<lambda>scene. texts_of scene \<noteq> None"
  let ?S = "\<lambda>scene. selects_of scene \<noteq> None"
  assume w: "walk_scenes 0 scenes ([], []) = (user_text, user_select)"
  have ut: "user_text = take (slots_needed ?T scenes) (map text_slot scenes)"
    and us: "user_select = take (slots_needed ?S scenes) (map select_slot scenes)"
    using w by (simp_all add: walk_scenes_take)
  have lt: "length user_text = slots_needed ?T scenes"
    using ut slots_needed_le [of ?T scenes] by simp
  have ls: "length user_select = slots_needed ?S scenes"
    using us slots_needed_le [of ?S scenes] by simp
  have c1: "length user_text =
       (if \<exists>i<length scenes. texts_of (scenes ! i) \<noteq> None
        then Suc (Max {i. i < length scenes \<and> texts_of (scenes ! i) \<noteq> None}) else 0)"
    using lt slots_needed_Max [of ?T scenes] by simp
  have c2: "length user_select =
       (if \<exists>i<length scenes. selects_of (scenes ! i) \<noteq> None
        then Suc (Max {i. i < length scenes \<and> selects_of (scenes ! i) \<noteq> None}) else 0)"
    using ls slots_needed_Max [of ?S scenes] by simp
  have c3: "\<forall>i<length user_text.
         user_text ! i = map_option (append_entries []) (texts_of (scenes ! i))"
  proof (intro allI impI)
    fix i assume i: "i < length user_text"
    with lt slots_needed_le [of ?T scenes] have "i < length scenes" by simp
    with i lt ut show "user_text ! i = map_option (append_entries []) (texts_of (scenes ! i))"
      by (simp add: text_slot_def)
  qed
  have c4: "\<forall>i<length user_select.
         user_select ! i =
           (case selects_of (scenes ! i) of Some selects \<Rightarrow> selects | None \<Rightarrow> JNull)"
  proof (intro allI impI)
    fix i assume i: "i < length user_select"
    with ls slots_needed_le [of ?S scenes] have "i < length scenes" by simp
    with i ls us show "user_select ! i =
           (case selects_of (scenes ! i) of Some selects \<Rightarrow> selects | None \<Rightarrow> JNull)"
      by (simp add: select_slot_def)
  qed
  have c5: "length user_text = 3 \<and> user_text ! 0 = None \<and> user_text ! 1 = None"
    if h: "2 < length scenes \<and> texts_of (scenes ! 2) \<noteq> None \<and>
        (\<forall>i<length scenes. i \<noteq> 2 \<longrightarrow> texts_of (scenes ! i) = None)"
  proof -
    have "Max {i. i < length scenes \<and> texts_of (scenes ! i) \<noteq> None} = 2"
    proof (rule Max_eqI)
      show "finite {i. i < length scenes \<and> texts_of (scenes ! i) \<noteq> None}" by simp
      show "2 \<in> {i. i < length scenes \<and> texts_of (scenes ! i) \<noteq> None}" using h by simp
      fix y assume "y \<in> {i. i < length scenes \<and> texts_of (scenes ! i) \<noteq> None}"
      with h show "y \<le> 2" by auto
    qed
    moreover have "\<exists>i<length scenes. texts_of (scenes ! i) \<noteq> None" using h by blast
    ultimately have l: "length user_text = 3" using c1 by simp
    from h have a: "\<forall>i<length scenes. i \<noteq> 2 \<longrightarrow> texts_of (scenes ! i) = None"
      and b: "2 < length scenes" by simp_all
    from b have "0 < length scenes \<and> (0::nat) \<noteq> 2" and "1 < length scenes \<and> (1::nat) \<noteq> 2"
      by auto
    with a have "texts_of (scenes ! 0) = None" and "texts_of (scenes ! 1) = None"
      by blast+
    with c3 l show ?thesis by simp
  qed
  from c1 c2 c3 c4 c5 show "length user_text =
       (if \<exists>i<length scenes. texts_of (scenes ! i) \<noteq> None
        then Suc (Max {i. i < length scenes \<and> texts_of (scenes ! i) \<noteq> None}) else 0)
   \<and> length user_select =
       (if \<exists>i<length scenes. selects_of (scenes ! i) \<noteq> None
        then Suc (Max {i. i < length scenes \<and> selects_of (scenes ! i) \<noteq> None}) else 0)
   \<and> (\<forall>i<length user_text.
         user_text ! i = map_option (append_entries []) (texts_of (scenes ! i)))
   \<and> (\<forall>i<length user_select.
         user_select ! i =
           (case selects_of (scenes ! i) of Some selects \<Rightarrow> selects | None \<Rightarrow> JNull))
   \<and> (2 < length scenes \<and> texts_of (scenes ! 2) \<noteq> None \<and>
        (\<forall>i<length scenes. i \<noteq> 2 \<longrightarrow> texts_of (scenes ! i) = None)
        \<longrightarrow> length user_text = 3 \<and> user_text ! 0 = None \<and> user_text ! 1 = None)"
    by blast
qed

theorem scene_slots_aligned_witness:
  "walk_scenes 0
     [JNull, JDict [(str ''selects'', JInt 1)],
      JDict [(str ''texts'', JList [JList [JStr (str ''A''), JStr (str ''Hi'')]])]] ([], [])
     = ([None, None, Some [Some (str ''Hi''), Some (str ''Hi'')]], [JNull, JInt 1])
   \<and> length [None, None, Some [Some (str ''Hi''), Some (str ''Hi'')]] = 3
   \<and> [None, None, Some [Some (str ''Hi''), Some (str ''Hi'')]] ! 0 = None
   \<and> [None, None, Some [Some (str ''Hi''), Some (str ''Hi'')]] ! 1 = None"
proof -
  let ?scenes = "[JNull, JDict [(str ''selects'', JInt 1)],
      JDict [(str ''texts'', JList [JList [JStr (str ''A''), JStr (str ''Hi'')]])]]"
  have w: "walk_scenes 0 ?scenes ([], [])
      = ([None, None, Some [Some (str ''Hi''), Some (str ''Hi'')]], [JNull, JInt 1])"
    by code_simp
  have h: "2 < length ?scenes \<and> texts_of (?scenes ! 2) \<noteq> None \<and>
      (\<forall>i<length ?scenes. i \<noteq> 2 \<longrightarrow> texts_of (?scenes ! i) = None)"
    by (auto simp: str_def less_Suc_eq)
  note t = scene_slots_aligned [THEN mp, OF w]
  note u = t [THEN conjunct2, THEN conjunct2, THEN conjunct2, THEN conjunct2, THEN mp, OF h]
  from w u show ?thesis by (rule conjI)
qed

section \<open>Properties of the change detector and the driver\<close>

lemma collect_loop_filter:
  "collect_loop w names targets =
     targets @ filter (\<lambda>name. case json_dir w name of
                       None \<Rightarrow> False
                     | Some (source_mtime, content) \<Rightarrow>
                        (case last_extract w of
                           None \<Rightarrow> True
                         | Some (last_mtime, stamp) \<Rightarrow> last_mtime < source_mtime)) names"
  by (induction names arbitrary: targets) (auto split: option.splits)

text \<open>
  Claim C6. The Change Detector returns, in manifest order, the names whose source file
  exists and, when there is a timestamp file, has a modification time strictly greater
  than that of the timestamp file; with no timestamp file it returns exactly the names
  whose source file exists.
\<close>

theorem collect_modified_files_filter:
  "collect_modified_files json_files w =
     filter (\<lambda>name. case json_dir w name of
               None \<Rightarrow> False
             | Some (source_mtime, content) \<Rightarrow>
                (case last_extract w of
                   None \<Rightarrow> True
                 | Some (last_mtime, stamp) \<Rightarrow> last_mtime < source_mtime)) json_files
   \<and> (last_extract w = None \<longrightarrow>
        collect_modified_files json_files w = filter (\<lambda>name. json_dir w name \<noteq> None) json_files)"
proof (intro conjI impI)
  show "collect_modified_files json_files w =
     filter (\<lambda>name. case json_dir w name of
               None \<Rightarrow> False
             | Some (source_mtime, content) \<Rightarrow>
                (case last_extract w of
                   None \<Rightarrow> True
                 | Some (last_mtime, stamp) \<Rightarrow> last_mtime < source_mtime)) json_files"
    by (simp add: collect_modified_files_def collect_loop_filter)
next
  assume "last_extract w = None"
  then have "(\<lambda>name. case json_dir w name of
               None \<Rightarrow> False
             | Some (source_mtime, content) \<Rightarrow>
                (case last_extract w of
                   None \<Rightarrow> True
                 | Some (last_mtime, stamp) \<Rightarrow> last_mtime < source_mtime))
      = (\<lambda>name. json_dir w name \<noteq> None)"
    by (auto split: option.splits)
  then show "collect_modified_files json_files w
      = filter (\<lambda>name. json_dir w name \<noteq> None) json_files"
    by (simp add: collect_modified_files_def collect_loop_filter)
qed

theorem collect_modified_files_filter_witness:
  "collect_modified_files [str ''a.json'', str ''c.json'', str ''b.json'', str ''d.json'']
     \<lparr>manifest = None,
      json_dir = [str ''a.json'' \<mapsto> (10::nat, None), str ''b.json'' \<mapsto> (3, None),
                  str ''d.json'' \<mapsto> (5, None)],
      text_dir = Map.empty, select_dir = Map.empty,
      last_extract = Some (5, []), stderr = []\<rparr>
     = [str ''a.json'']
   \<and> collect_modified_files [str ''a.json'', str ''c.json'', str ''b.json'']
     \<lparr>manifest = None,
      json_dir = [str ''a.json'' \<mapsto> (10::nat, None), str ''b.json'' \<mapsto> (3, None)],
      text_dir = Map.empty, select_dir = Map.empty,
      last_extract = None, stderr = []\<rparr>
     = [str ''a.json'', str ''b.json'']"
proof -
  let ?w1 = "\<lparr>manifest = None,
      json_dir = [str ''a.json'' \<mapsto> (10::nat, None), str ''b.json'' \<mapsto> (3, None),
                  str ''d.json'' \<mapsto> (5, None)],
      text_dir = Map.empty, select_dir = Map.empty,
      last_extract = Some (5, []), stderr = []\<rparr>"
  let ?w2 = "\<lparr>manifest = None,
      json_dir = [str ''a.json'' \<mapsto> (10::nat, None), str ''b.json'' \<mapsto> (3, None)],
      text_dir = Map.empty, select_dir = Map.empty,
      last_extract = None, stderr = []\<rparr>"
  have h: "last_extract ?w2 = None" by simp
  have a: "collect_modified_files
      [str ''a.json'', str ''c.json'', str ''b.json'', str ''d.json''] ?w1 = [str ''a.json'']"
    using collect_modified_files_filter
      [of "[str ''a.json'', str ''c.json'', str ''b.json'', str ''d.json'']" ?w1,
       THEN conjunct1]
    by (simp add: str_def)
  have b: "collect_modified_files [str ''a.json'', str ''c.json'', str ''b.json''] ?w2
      = [str ''a.json'', str ''b.json'']"
    using collect_modified_files_filter
      [of "[str ''a.json'', str ''c.json'', str ''b.json'']" ?w2,
       THEN conjunct2, THEN mp, OF h]
    by (simp add: str_def)
  from a b show ?thesis by (rule conjI)
qed

text \<open>
  Claim C8. For a source document that is not a dict, or has no \<open>scenes\<close>, or whose
  \<open>scenes\<close> is not a list, \<open>extract_file\<close> writes as text output an opening bracket, a
  newline and a closing bracket (code points 91, 10, 93) and as select output the two
  brackets (91, 93), logs the file as skipped and returns \<open>True\<close> without an error.
\<close>

theorem no_scenes_writes_empty_outputs:
  "json_dir w filename = Some (source_mtime, Some origin_json) \<and>
   (\<forall>members scenes. origin_json = JDict members \<longrightarrow>
      map_of members (str ''scenes'') \<noteq> Some (JList scenes))
   \<longrightarrow> extract_file filename w =
        (w\<lparr>text_dir := (text_dir w)(filename \<mapsto> [91, 10, 93]),
           select_dir := (select_dir w)(filename \<mapsto> [91, 93]),
           stderr := stderr w @ [filename @ str '' skipped (no scenes).'']\<rparr>,
         Inr True)"
proof
  assume a: "json_dir w filename = Some (source_mtime, Some origin_json) \<and>
   (\<forall>members scenes. origin_json = JDict members \<longrightarrow>
      map_of members (str ''scenes'') \<noteq> Some (JList scenes))"
  have ng: "get_scenes origin_json \<noteq> JList scenes" for scenes
  proof (cases origin_json)
    case (JDict members)
    with a show ?thesis by (auto split: option.splits)
  qed simp_all
  have g: "(case get_scenes origin_json of JList scenes \<Rightarrow> f scenes | _ \<Rightarrow> d) = d"
    for f :: "json list \<Rightarrow> 't world \<times> (error + bool)" and d
    using ng by (cases "get_scenes origin_json") auto
  have t: "build_text_output [] = [91, 10, 93]"
    by (simp add: build_text_output_def str_def)
  have s: "str ''[]'' = [91, 93]"
    by (simp add: str_def)
  from a show "extract_file filename w =
        (w\<lparr>text_dir := (text_dir w)(filename \<mapsto> [91, 10, 93]),
           select_dir := (select_dir w)(filename \<mapsto> [91, 93]),
           stderr := stderr w @ [filename @ str '' skipped (no scenes).'']\<rparr>,
         Inr True)"
    by (simp add: extract_file_def g write_extract_files_def log_def t s)
qed

theorem no_scenes_writes_empty_outputs_witness:
  "extract_file (str ''a.json'')
     \<lparr>manifest = None, json_dir = [str ''a.json'' \<mapsto> (0::nat, Some (JDict []))],
      text_dir = Map.empty, select_dir = Map.empty, last_extract = None, stderr = []\<rparr>
   = (\<lparr>manifest = None, json_dir = [str ''a.json'' \<mapsto> (0::nat, Some (JDict []))],
       text_dir = [str ''a.json'' \<mapsto> [91, 10, 93]],
       select_dir = [str ''a.json'' \<mapsto> [91, 93]],
       last_extract = None, stderr = [str ''a.json skipped (no scenes).'']\<rparr>,
      Inr True)"
proof -
  let ?w = "\<lparr>manifest = None, json_dir = [str ''a.json'' \<mapsto> (0::nat, Some (JDict []))],
      text_dir = Map.empty, select_dir = Map.empty, last_extract = None, stderr = []\<rparr>"
  have h: "json_dir ?w (str ''a.json'') = Some (0, Some (JDict [])) \<and>
      (\<forall>members scenes. JDict [] = JDict members \<longrightarrow>
         map_of members (str ''scenes'') \<noteq> Some (JList scenes))"
    by simp
  from no_scenes_writes_empty_outputs [THEN mp, OF h] show ?thesis
    by (simp add: str_def)
qed

lemma extract_file_keeps:
  "extract_file filename w = (w', r) \<Longrightarrow>
     manifest w' = manifest w \<and> json_dir w' = json_dir w \<and> last_extract w' = last_extract w"
  by (auto simp: extract_file_def write_extract_files_def log_def
      split: option.splits json.splits prod.splits)

lemma extract_file_returns_True:
  "extract_file filename w = (w', Inr extracted) \<Longrightarrow> extracted"
  by (auto simp: extract_file_def split: option.splits json.splits prod.splits)

lemma extract_all_keeps:
  "extract_all names new_extract w = (w', r) \<Longrightarrow>
     manifest w' = manifest w \<and> json_dir w' = json_dir w \<and> last_extract w' = last_extract w"
proof (induction names arbitrary: new_extract w)
  case Nil
  then show ?case by simp
next
  case (Cons filename rest)
  obtain w1 r1 where e: "extract_file filename w = (w1, r1)" by (cases "extract_file filename w")
  note k = extract_file_keeps [OF e]
  show ?case
  proof (cases r1)
    case (Inl err)
    with Cons.prems e k show ?thesis by simp
  next
    case (Inr extracted)
    with Cons.prems e have "extract_all rest (if extracted then True else new_extract) w1 = (w', r)"
      by simp
    from Cons.IH [OF this] k show ?thesis by simp
  qed
qed

lemma extract_all_flag:
  "extract_all names new_extract w = (w', Inr flag) \<Longrightarrow> flag = (new_extract \<or> names \<noteq> [])"
proof (induction names arbitrary: new_extract w)
  case Nil
  then show ?case by simp
next
  case (Cons filename rest)
  obtain w1 r1 where e: "extract_file filename w = (w1, r1)" by (cases "extract_file filename w")
  show ?case
  proof (cases r1)
    case (Inl err)
    with Cons.prems e show ?thesis by simp
  next
    case (Inr extracted)
    with e have x: "extracted" by (auto dest: extract_file_returns_True)
    from Cons.prems e Inr x have "extract_all rest True w1 = (w', Inr flag)" by simp
    from Cons.IH [OF this] show ?thesis by simp
  qed
qed

lemma collect_modified_files_cong:
  "json_dir w' = json_dir w \<Longrightarrow> last_extract w' = last_extract w \<Longrightarrow>
     collect_modified_files names w' = collect_modified_files names w"
  by (simp add: collect_modified_files_def collect_loop_filter
      cong: option.case_cong prod.case_cong)

lemma collect_modified_files_none:
  assumes "last_extract w = Some (now, stamp)"
    and "\<forall>name \<in> set names. \<forall>mt d. json_dir w name = Some (mt, d) \<longrightarrow> mt \<le> now"
  shows "collect_modified_files names w = []"
proof -
  have "\<not> (case json_dir w name of
               None \<Rightarrow> False
             | Some (source_mtime, content) \<Rightarrow>
                (case last_extract w of
                   None \<Rightarrow> True
                 | Some (last_mtime, stamp) \<Rightarrow> last_mtime < source_mtime))"
    if "name \<in> set names" for name
    using assms that by (fastforce split: option.splits)
  then show ?thesis
    by (simp add: collect_modified_files_def collect_loop_filter filter_empty_conv)
qed

text \<open>
  Claim C9, as stated, fails for a source file dated after the runs: with a source
  modified at time 10, a first run at time 5 and a second at time 6, both runs extract
  the file and update the timestamp, and the second never logs that no file was updated.
\<close>

theorem future_dated_source_counterexample:
  "snd (main 5 (str ''t1'') (one_source_world 10)) = Inr 0
   \<and> snd (main 6 (str ''t2'') (fst (main 5 (str ''t1'') (one_source_world 10)))) = Inr 0
   \<and> stderr (fst (main 6 (str ''t2'') (fst (main 5 (str ''t1'') (one_source_world 10)))))
       = [str ''a.json extract DONE!'', str ''Extract time updated.'',
          str ''a.json extract DONE!'', str ''Extract time updated.'']
   \<and> last_extract (fst (main 6 (str ''t2'') (fst (main 5 (str ''t1'') (one_source_world 10)))))
       = Some (6, str ''t2'')"
  by (simp add: main_def one_source_world_def read_json_file_list_def collect_modified_files_def
   extract_file_def write_extract_files_def log_def update_extract_time_def build_text_output_def str_def)

text \<open>
  Claim C9, amended. When a first run of the driver completes and no source file named in
  the manifest has a modification time later than the time of that run, a second run on
  the resulting file system extracts nothing: it leaves every file as it is, logs that no
  file was updated and returns 0.
\<close>

theorem second_run_is_noop:
  assumes first: "main now1 asctime1 w = (w1, Inr 0)"
    and names: "read_json_file_list w = Inr json_file_list"
    and past: "\<forall>name \<in> set json_file_list.
                 \<forall>source_mtime content. json_dir w name = Some (source_mtime, content)
                   \<longrightarrow> source_mtime \<le> now1"
  shows "main now2 asctime2 w1 = (log (str ''No file updated, have a good day!'') w1, Inr 0)"
proof -
  from names obtain lines where m: "manifest w = Some lines"
    by (cases "manifest w") (auto simp: read_json_file_list_def)
  define names where "names = filter (\<lambda>line. line \<noteq> []) lines"
  have r: "read_json_file_list w = Inr names"
    by (simp add: read_json_file_list_def m names_def)
  with names have jn: "json_file_list = names" by simp
  obtain w' res where e: "extract_all (collect_modified_files names w) False w = (w', res)"
    by (cases "extract_all (collect_modified_files names w) False w")
  from first r e obtain flag where res: "res = Inr flag"
    by (cases res) (auto simp: main_def)
  note k = extract_all_keeps [OF e]
  from extract_all_flag e res have flag: "flag = (collect_modified_files names w \<noteq> [])"
    by fastforce
  have w1: "w1 = (if \<not> flag then log (str ''No file updated, have a good day!'') w'
                  else update_extract_time now1 asctime1 w')"
    using first r e res by (auto simp: main_def split: if_splits)
  have km: "manifest w1 = manifest w" and kj: "json_dir w1 = json_dir w"
    using w1 k by (auto simp: log_def update_extract_time_def)
  have r1: "read_json_file_list w1 = Inr names"
    using r km by (simp add: read_json_file_list_def)
  have none: "collect_modified_files names w1 = []"
  proof (cases flag)
    case False
    with w1 k have "last_extract w1 = last_extract w" by (simp add: log_def)
    with kj have "collect_modified_files names w1 = collect_modified_files names w"
      by (rule collect_modified_files_cong)
    with False flag show ?thesis by simp
  next
    case True
    with w1 have l: "last_extract w1 = Some (now1, asctime1)"
      by (simp add: log_def update_extract_time_def)
    from past jn kj have "\<forall>name \<in> set names. \<forall>mt d. json_dir w1 name = Some (mt, d) \<longrightarrow> mt \<le> now1"
      by simp
    with l show ?thesis by (rule collect_modified_files_none)
  qed
  show ?thesis using r1 none by (simp add: main_def)
qed

theorem second_run_is_noop_witness:
  "main 6 (str ''t2'')
     ((one_source_world 3)
        \<lparr>text_dir := [str ''a.json'' \<mapsto> [91, 10, 93]],
         select_dir := [str ''a.json'' \<mapsto> [91, 93]],
         last_extract := Some (5, str ''t1''),
         stderr := [str ''a.json extract DONE!'', str ''Extract time updated.'']\<rparr>)
   = ((one_source_world 3)
        \<lparr>text_dir := [str ''a.json'' \<mapsto> [91, 10, 93]],
         select_dir := [str ''a.json'' \<mapsto> [91, 93]],
         last_extract := Some (5, str ''t1''),
         stderr := [str ''a.json extract DONE!'', str ''Extract time updated.'',
                    str ''No file updated, have a good day!'']\<rparr>,
      Inr 0)"
proof -
  let ?w1 = "(one_source_world 3)
        \<lparr>text_dir := [str ''a.json'' \<mapsto> [91, 10, 93]],
         select_dir := [str ''a.json'' \<mapsto> [91, 93]],
         last_extract := Some (5, str ''t1''),
         stderr := [str ''a.json extract DONE!'', str ''Extract time updated.'']\<rparr>"
  have first: "main 5 (str ''t1'') (one_source_world 3) = (?w1, Inr 0)"
    by (simp add: main_def one_source_world_def read_json_file_list_def
        collect_modified_files_def extract_file_def write_extract_files_def log_def
        update_extract_time_def build_text_output_def str_def)
  have names: "read_json_file_list (one_source_world 3) = Inr [str ''a.json'']"
    by (simp add: one_source_world_def read_json_file_list_def str_def)
  have past: "\<forall>name \<in> set [str ''a.json''].
      \<forall>source_mtime content.
        json_dir (one_source_world 3) name = Some (source_mtime, content)
          \<longrightarrow> source_mtime \<le> 5"
    by (simp add: one_source_world_def)
  from second_run_is_noop [OF first names past, of 6 "str ''t2''"] show ?thesis
    by (simp add: log_def)
qed

end
